theory Spec2Isabelle
  imports Complex_Main "HOL-Library.Sublist"
begin

section \<open>The dog-park scraper of update\_parks.py\<close>

text \<open>
  The embedding follows \<^verbatim>\<open>src/update_parks.py\<close>. Python floats are modelled by
  \<^typ>\<open>real\<close>: the claims are about which records are compared, merged and kept and
  about which formula computes a centroid, not about rounding. Dictionaries are maps,
  a missing key that the source reads with \<^verbatim>\<open>d[k]\<close> is a \<open>KeyError\<close>, and
  \<^verbatim>\<open>self.parks\<close> is passed in and returned.
\<close>

subsection \<open>Data\<close>

text \<open>The dataclass \<^verbatim>\<open>DogPark\<close>. \<^verbatim>\<open>__post_init__\<close> replaces a missing
  amenity list by the empty list, so the field is a list. A boundary is a list of
  two-element lists \<^verbatim>\<open>[lat, lon]\<close>.\<close>

record DogPark =
  name :: string
  lat :: real
  lng :: real
  description :: string
  address :: string
  amenities :: "string list"
  area_bounds :: "real list list option"
  source :: string

text \<open>One element of the Overpass response: a JSON object whose keys may be absent.
  The fields are the keys \<^verbatim>\<open>type\<close>, \<^verbatim>\<open>id\<close>, \<^verbatim>\<open>lat\<close>, \<^verbatim>\<open>lon\<close>,
  \<^verbatim>\<open>tags\<close> and \<^verbatim>\<open>nodes\<close> that the source reads.\<close>

record element =
  el_type :: "string option"
  el_id :: "int option"
  el_lat :: "real option"
  el_lon :: "real option"
  el_tags :: "(string \<rightharpoonup> string) option"
  el_nodes :: "int list option"

datatype py_error = KeyError | ValueError | RequestException | HTTPError | JSONDecodeError

subsection \<open>Tags, names, descriptions and amenities\<close>

text \<open>\<^verbatim>\<open>element.get('tags', {})\<close>\<close>

definition get_tags :: "element \<Rightarrow> (string \<rightharpoonup> string)" where
  "get_tags e = (case el_tags e of None \<Rightarrow> Map.empty | Some t \<Rightarrow> t)"

text \<open>\<^verbatim>\<open>d.get(k, default)\<close>\<close>

definition get_default :: "('k \<rightharpoonup> 'v) \<Rightarrow> 'k \<Rightarrow> 'v \<Rightarrow> 'v" where
  "get_default d k dflt = (case d k of None \<Rightarrow> dflt | Some v \<Rightarrow> v)"

text \<open>\<^verbatim>\<open>sep.join(parts)\<close>\<close>

fun join :: "string \<Rightarrow> string list \<Rightarrow> string" where
  "join sep [] = []"
| "join sep [x] = x"
| "join sep (x # y # ys) = x @ sep @ join sep (y # ys)"

text \<open>The description parts, built by the same two tests in both processors.\<close>

definition description_parts :: "(string \<rightharpoonup> string) \<Rightarrow> string list" where
  "description_parts tags =
     (case tags ''description'' of None \<Rightarrow> [] | Some d \<Rightarrow> [d]) @
     (case tags ''surface'' of None \<Rightarrow> [] | Some s \<Rightarrow> [''Surface: '' @ s])"

definition make_description :: "(string \<rightharpoonup> string) \<Rightarrow> string \<Rightarrow> string" where
  "make_description tags dflt =
     (let parts = description_parts tags in
      if parts \<noteq> [] then join '' | '' parts else dflt)"

text \<open>The amenity block, the same four statements in \<^verbatim>\<open>_process_osm_node\<close> and
  \<^verbatim>\<open>_process_osm_way\<close>: each tests \<^verbatim>\<open>tags.get(key) == 'yes'\<close> and appends a label.\<close>

definition collect_amenities :: "(string \<rightharpoonup> string) \<Rightarrow> string list" where
  "collect_amenities tags =
     (if tags ''drinking_water'' = Some ''yes'' then [''Water fountain''] else []) @
     (if tags ''lit'' = Some ''yes'' then [''Lighting''] else []) @
     (if tags ''fence'' = Some ''yes'' then [''Fenced''] else []) @
     (if tags ''toilets'' = Some ''yes'' then [''Restrooms''] else [])"

subsection \<open>The OSM processors\<close>

text \<open>\<^verbatim>\<open>_process_osm_node\<close>: \<^verbatim>\<open>node['lat']\<close> and \<^verbatim>\<open>node['lon']\<close> raise
  \<open>KeyError\<close> when absent; otherwise one record is appended.\<close>

definition process_osm_node :: "element \<Rightarrow> DogPark list \<Rightarrow> py_error + DogPark list" where
  "process_osm_node node parks =
     (let tags = get_tags node;
          nm = get_default tags ''name'' (get_default tags ''dog'' ''Unnamed Dog Park'');
          ams = collect_amenities tags
      in case el_lat node of
           None \<Rightarrow> Inl KeyError
         | Some la \<Rightarrow>
             (case el_lon node of
                None \<Rightarrow> Inl KeyError
              | Some lo \<Rightarrow>
                  Inr (parks @
                    [\<lparr>name = nm, lat = la, lng = lo,
                      description = make_description tags ''Dog park'',
                      address = get_default tags ''addr:full'' '''',
                      amenities = ams, area_bounds = None,
                      source = ''OpenStreetMap''\<rparr>])))"

text \<open>The loop of \<^verbatim>\<open>_process_osm_way\<close> that resolves node ids: an id missing from
  the index is passed over, an indexed node without \<^verbatim>\<open>lat\<close> or \<^verbatim>\<open>lon\<close> raises.\<close>

fun resolve_coords :: "int list \<Rightarrow> (int \<rightharpoonup> element) \<Rightarrow> py_error + real list list" where
  "resolve_coords [] nodes_dict = Inr []"
| "resolve_coords (node_id # ids) nodes_dict =
     (case nodes_dict node_id of
        None \<Rightarrow> resolve_coords ids nodes_dict
      | Some node \<Rightarrow>
          (case el_lat node of
             None \<Rightarrow> Inl KeyError
           | Some la \<Rightarrow>
               (case el_lon node of
                  None \<Rightarrow> Inl KeyError
                | Some lo \<Rightarrow>
                    (case resolve_coords ids nodes_dict of
                       Inl e \<Rightarrow> Inl e
                     | Inr cs \<Rightarrow> Inr ([la, lo] # cs)))))"

definition process_osm_way ::
  "element \<Rightarrow> (int \<rightharpoonup> element) \<Rightarrow> DogPark list \<Rightarrow> py_error + DogPark list" where
  "process_osm_way way nodes_dict parks =
     (let tags = get_tags way;
          nodes = (case el_nodes way of None \<Rightarrow> [] | Some ns \<Rightarrow> ns)
      in if nodes = [] then Inr parks
         else case resolve_coords nodes nodes_dict of
           Inl e \<Rightarrow> Inl e
         | Inr coords \<Rightarrow>
             if coords = [] then Inr parks
             else
               let center_lat = sum_list (map (\<lambda>c. c ! 0) coords) / real (length coords);
                   center_lng = sum_list (map (\<lambda>c. c ! 1) coords) / real (length coords)
               in Inr (parks @
                    [\<lparr>name = get_default tags ''name'' ''Unnamed Dog Park'',
                      lat = center_lat, lng = center_lng,
                      description = make_description tags ''Dog park area'',
                      address = get_default tags ''addr:full'' '''',
                      amenities = collect_amenities tags,
                      area_bounds = Some coords,
                      source = ''OpenStreetMap''\<rparr>]))"

subsection \<open>The two passes of scrape\_openstreetmap\<close>

text \<open>First pass: index the node elements by id. \<^verbatim>\<open>element['type']\<close> and
  \<^verbatim>\<open>element['id']\<close> raise when the key is absent.\<close>

fun collect_nodes :: "element list \<Rightarrow> (int \<rightharpoonup> element) \<Rightarrow> py_error + (int \<rightharpoonup> element)" where
  "collect_nodes [] nodes_dict = Inr nodes_dict"
| "collect_nodes (e # es) nodes_dict =
     (case el_type e of
        None \<Rightarrow> Inl KeyError
      | Some t \<Rightarrow>
          if t = ''node'' then
            (case el_id e of
               None \<Rightarrow> Inl KeyError
             | Some i \<Rightarrow> collect_nodes es (nodes_dict(i \<mapsto> e)))
          else collect_nodes es nodes_dict)"

text \<open>Second pass. The processors append to \<^verbatim>\<open>self.parks\<close> in place, so when an
  element raises, the records appended before it stay: the loop returns the list it has
  reached together with the exception, if any.\<close>

fun process_elements ::
  "element list \<Rightarrow> (int \<rightharpoonup> element) \<Rightarrow> DogPark list \<Rightarrow> py_error option \<times> DogPark list" where
  "process_elements [] nodes_dict parks = (None, parks)"
| "process_elements (e # es) nodes_dict parks =
     (case el_type e of
        None \<Rightarrow> (Some KeyError, parks)
      | Some t \<Rightarrow>
          if t = ''node'' \<and> el_tags e \<noteq> None then
            (case process_osm_node e parks of
               Inl err \<Rightarrow> (Some err, parks)
             | Inr parks' \<Rightarrow> process_elements es nodes_dict parks')
          else if t = ''way'' \<and> el_tags e \<noteq> None then
            (case process_osm_way e nodes_dict parks of
               Inl err \<Rightarrow> (Some err, parks)
             | Inr parks' \<Rightarrow> process_elements es nodes_dict parks')
          else process_elements es nodes_dict parks)"

text \<open>The body of the \<^verbatim>\<open>try\<close> from \<^verbatim>\<open>elements = data.get('elements', [])\<close> on,
  with the \<^verbatim>\<open>except Exception\<close> that prints and goes on: the result is the park list.\<close>

definition scrape_elements :: "element list \<Rightarrow> DogPark list \<Rightarrow> DogPark list" where
  "scrape_elements elements parks =
     (case collect_nodes elements Map.empty of
        Inl err \<Rightarrow> parks
      | Inr nodes_dict \<Rightarrow> snd (process_elements elements nodes_dict parks))"

subsection \<open>The static Madison source\<close>

definition madison_park ::
  "string \<Rightarrow> real \<Rightarrow> real \<Rightarrow> string \<Rightarrow> string \<Rightarrow> string list \<Rightarrow> DogPark" where
  "madison_park nm la lo d a ams =
     \<lparr>name = nm, lat = la, lng = lo, description = d, address = a, amenities = ams,
      area_bounds = None, source = ''Madison Parks Department''\<rparr>"

definition madison_parks :: "DogPark list" where
  "madison_parks =
     [madison_park ''Sycamore Dog Park'' 43.0848 (-89.4445)
        ''Large fenced area with separate small dog section'' ''Sycamore Ave, Madison, WI''
        [''Fenced'', ''Separate small dog area'', ''Water fountain''],
      madison_park ''Yahara Heights Park'' 43.1101 (-89.3156)
        ''Popular dog-friendly park with trails'' ''Yahara Heights Rd, Madison, WI''
        [''Trails'', ''Parking''],
      madison_park ''Warner Park Dog Exercise Area'' 43.1141 (-89.3537)
        ''Spacious off-leash area near the lake'' ''Warner Park, Madison, WI''
        [''Fenced'', ''Lake access'', ''Parking''],
      madison_park ''Quann Dog Park'' 43.0245 (-89.5137)
        ''Well-maintained dog park on the west side'' ''Quann Park, Madison, WI''
        [''Fenced'', ''Water fountain'', ''Parking''],
      madison_park ''Token Creek Dog Park'' 43.1499 (-89.2561)
        ''Large rural dog park with nature trails'' ''Token Creek County Park, WI''
        [''Large area'', ''Trails'', ''Parking'']]"

definition scrape_madison_parks :: "DogPark list \<Rightarrow> DogPark list" where
  "scrape_madison_parks parks = parks @ madison_parks"

subsection \<open>The geocoder\<close>

text \<open>One match of the search response: \<^verbatim>\<open>lat\<close> and \<^verbatim>\<open>lon\<close> are strings, and a
  key may be absent.\<close>

record geo_match =
  m_lat :: "string option"
  m_lon :: "string option"

text \<open>The \<^verbatim>\<open>try\<close> body of \<^verbatim>\<open>geocode_location\<close>. \<open>response\<close> is what
  \<^verbatim>\<open>session.get\<close>, \<^verbatim>\<open>raise_for_status\<close> and \<^verbatim>\<open>response.json()\<close> give: an exception
  or the list of matches. \<open>to_float\<close> is Python's \<^verbatim>\<open>float\<close> on a string, which raises
  \<open>ValueError\<close> on text that is not a number.\<close>

definition default_coordinates :: "real \<times> real" where
  "default_coordinates = (43.0731, -89.4012)"

definition geocode_try ::
  "(string \<Rightarrow> real option) \<Rightarrow> py_error + geo_match list \<Rightarrow> py_error + real \<times> real" where
  "geocode_try to_float response =
     (case response of
        Inl e \<Rightarrow> Inl e
      | Inr data \<Rightarrow>
          (case data of
             [] \<Rightarrow> Inr default_coordinates
           | m # _ \<Rightarrow>
               (case m_lat m of
                  None \<Rightarrow> Inl KeyError
                | Some s \<Rightarrow>
                    (case to_float s of
                       None \<Rightarrow> Inl ValueError
                     | Some la \<Rightarrow>
                         (case m_lon m of
                            None \<Rightarrow> Inl KeyError
                          | Some t \<Rightarrow>
                              (case to_float t of
                                 None \<Rightarrow> Inl ValueError
                               | Some lo \<Rightarrow> Inr (la, lo)))))))"

text \<open>\<^verbatim>\<open>geocode_location\<close>: the \<^verbatim>\<open>except Exception\<close> handler returns the default.\<close>

definition geocode_location ::
  "(string \<Rightarrow> real option) \<Rightarrow> py_error + geo_match list \<Rightarrow> real \<times> real" where
  "geocode_location to_float response =
     (case geocode_try to_float response of
        Inl e \<Rightarrow> default_coordinates
      | Inr c \<Rightarrow> c)"

subsection \<open>Deduplication\<close>

text \<open>\<^verbatim>\<open>remove_duplicates\<close> reads \<^verbatim>\<open>self.parks\<close> and replaces it by
  \<^verbatim>\<open>unique_parks\<close>. The records of \<^verbatim>\<open>self.parks\<close> are distinct objects, each built
  by one constructor call of a fetcher, so a merge changes a record that the outer loop
  has already passed and the loops can be read on values.\<close>

definition lat_diff :: "DogPark \<Rightarrow> DogPark \<Rightarrow> real" where
  "lat_diff park unique_park = \<bar>lat park - lat unique_park\<bar>"

definition lng_diff :: "DogPark \<Rightarrow> DogPark \<Rightarrow> real" where
  "lng_diff park unique_park = \<bar>lng park - lng unique_park\<bar>"

text \<open>The body of \<^verbatim>\<open>if lat_diff < 0.001 and lng_diff < 0.001\<close>. A string and a list
  are true when non-empty. \<open>list_set\<close> stands for \<^verbatim>\<open>list(set(xs))\<close>, whose order
  Python does not fix.\<close>

definition merge_information ::
  "(string list \<Rightarrow> string list) \<Rightarrow> DogPark \<Rightarrow> DogPark \<Rightarrow> DogPark" where
  "merge_information list_set park unique_park =
     (let u1 = (if description park \<noteq> [] \<and> description unique_park = []
                then unique_park\<lparr>description := description park\<rparr> else unique_park)
      in if amenities park \<noteq> []
         then u1\<lparr>amenities := list_set (amenities u1 @ amenities park)\<rparr> else u1)"

text \<open>The inner loop over \<^verbatim>\<open>unique_parks\<close>, left by \<^verbatim>\<open>break\<close> at the first
  match: it returns \<^verbatim>\<open>is_duplicate\<close> and the accumulated list after the merge.\<close>

fun scan_unique ::
  "(string list \<Rightarrow> string list) \<Rightarrow> DogPark \<Rightarrow> DogPark list \<Rightarrow> bool \<times> DogPark list" where
  "scan_unique list_set park [] = (False, [])"
| "scan_unique list_set park (unique_park # rest) =
     (if lat_diff park unique_park < 0.001 \<and> lng_diff park unique_park < 0.001
      then (True, merge_information list_set park unique_park # rest)
      else (let (is_duplicate, rest') = scan_unique list_set park rest
            in (is_duplicate, unique_park # rest')))"

text \<open>The outer loop over \<^verbatim>\<open>self.parks\<close>.\<close>

fun dedup_loop ::
  "(string list \<Rightarrow> string list) \<Rightarrow> DogPark list \<Rightarrow> DogPark list \<Rightarrow> DogPark list" where
  "dedup_loop list_set [] unique_parks = unique_parks"
| "dedup_loop list_set (park # parks) unique_parks =
     (let (is_duplicate, merged) = scan_unique list_set park unique_parks
      in dedup_loop list_set parks (if \<not> is_duplicate then merged @ [park] else merged))"

definition remove_duplicates ::
  "(string list \<Rightarrow> string list) \<Rightarrow> DogPark list \<Rightarrow> DogPark list" where
  "remove_duplicates list_set parks = dedup_loop list_set parks []"

subsection \<open>The pipeline\<close>

text \<open>\<^verbatim>\<open>scrape_openstreetmap\<close> from the response on: \<open>response\<close> is what the
  request and \<^verbatim>\<open>response.json()\<close> give, an exception or the element list. Every
  exception is caught and printed, and the records appended so far stay.

  \<^verbatim>\<open>run\<close> up to the export: the OSM fetch, the Madison source when the location
  names Madison (the flag \<open>madison\<close> is the outcome of that test on the location
  string), then the deduplication. The export writes the resulting list.\<close>

definition scrape_openstreetmap :: "py_error + element list \<Rightarrow> DogPark list \<Rightarrow> DogPark list" where
  "scrape_openstreetmap response parks =
     (case response of Inl err \<Rightarrow> parks | Inr elements \<Rightarrow> scrape_elements elements parks)"

definition run_parks ::
  "(string list \<Rightarrow> string list) \<Rightarrow> py_error + element list \<Rightarrow> bool \<Rightarrow> DogPark list" where
  "run_parks list_set response madison =
     (let parks = scrape_openstreetmap response [];
          parks = (if madison then scrape_madison_parks parks else parks)
      in remove_duplicates list_set parks)"

subsection \<open>Notions of the specification\<close>

text \<open>Two records are duplicates of each other when both coordinate differences are
  below the threshold: the test of the inner loop.\<close>

definition proximate :: "DogPark \<Rightarrow> DogPark \<Rightarrow> bool" where
  "proximate park unique_park \<longleftrightarrow>
     lat_diff park unique_park < 0.001 \<and> lng_diff park unique_park < 0.001"

text \<open>\<open>p'\<close> is \<open>p\<close> after merges: the same record but for description and
  amenities. The source mutates the object held in \<^verbatim>\<open>unique_parks\<close>; in the model the
  object is the record at its position, and this relation ties it to the input record it
  was appended as.\<close>

definition merged_from :: "DogPark \<Rightarrow> DogPark \<Rightarrow> bool" where
  "merged_from p' p \<longleftrightarrow> p' = p\<lparr>description := description p', amenities := amenities p'\<rparr>"

text \<open>What is known of \<^verbatim>\<open>list(set(xs))\<close>: the elements of \<open>xs\<close>, each once, in
  some order.\<close>

definition set_enumeration :: "(string list \<Rightarrow> string list) \<Rightarrow> bool" where
  "set_enumeration list_set \<longleftrightarrow> (\<forall>xs. set (list_set xs) = set xs \<and> distinct (list_set xs))"

text \<open>The first-seen records of a list, following the specification's words: a
  record is kept unless a kept record is within the threshold of it. No field is
  changed.\<close>

fun first_seen_loop :: "DogPark list \<Rightarrow> DogPark list \<Rightarrow> DogPark list" where
  "first_seen_loop [] kept = kept"
| "first_seen_loop (p # ps) kept =
     first_seen_loop ps (if list_ex (proximate p) kept then kept else kept @ [p])"

definition first_seen :: "DogPark list \<Rightarrow> DogPark list" where
  "first_seen ps = first_seen_loop ps []"

text \<open>The earlier record \<open>u\<close> and the later record \<open>p\<close> are not duplicates.\<close>

definition apart :: "DogPark \<Rightarrow> DogPark \<Rightarrow> bool" where
  "apart u p \<longleftrightarrow> \<not> proximate p u"

text \<open>Records and elements for the examples; the elements are those of the
  specification's end-to-end scenario, with the two nodes the way refers to.\<close>

definition example_park :: "string \<Rightarrow> real \<Rightarrow> real \<Rightarrow> string \<Rightarrow> string list \<Rightarrow> DogPark" where
  "example_park nm la lo d ams = madison_park nm la lo d ''addr'' ams"

text \<open>\<^verbatim>\<open>way.get('nodes', [])\<close>, and what it means for a record to come from a way:
  its boundary is the ring resolved for a way element of the response, which is not
  empty, and its coordinates are the means of the ring's latitudes and longitudes.\<close>

definition way_nodes :: "element \<Rightarrow> int list" where
  "way_nodes way = (case el_nodes way of None \<Rightarrow> [] | Some ns \<Rightarrow> ns)"

definition ring_of :: "DogPark \<Rightarrow> real list list \<Rightarrow> bool" where
  "ring_of p coords \<longleftrightarrow>
     coords \<noteq> [] \<and> area_bounds p = Some coords \<and>
     lat p = sum_list (map (\<lambda>c. c ! 0) coords) / real (length coords) \<and>
     lng p = sum_list (map (\<lambda>c. c ! 1) coords) / real (length coords)"

definition derived_from_way :: "element list \<Rightarrow> DogPark \<Rightarrow> bool" where
  "derived_from_way elements p =
     (case collect_nodes elements Map.empty of
        Inl err \<Rightarrow> False
      | Inr nodes_dict \<Rightarrow>
          list_ex (\<lambda>way. el_type way = Some ''way'' \<and>
             (case resolve_coords (way_nodes way) nodes_dict of
                Inl err \<Rightarrow> False
              | Inr coords \<Rightarrow> ring_of p coords)) elements)"

definition osm_element ::
  "string \<Rightarrow> int \<Rightarrow> (real \<times> real) option \<Rightarrow> (string \<rightharpoonup> string) option \<Rightarrow> int list option \<Rightarrow> element" where
  "osm_element t i c tags ns =
     \<lparr>el_type = Some t, el_id = Some i, el_lat = map_option fst c, el_lon = map_option snd c,
      el_tags = tags, el_nodes = ns\<rparr>"

definition scenario_elements :: "element list" where
  "scenario_elements =
     [osm_element ''node'' 1 (Some (43.08, -89.44))
        (Some [''name'' \<mapsto> ''A'', ''fence'' \<mapsto> ''yes'']) None,
      osm_element ''way'' 2 None (Some [''name'' \<mapsto> ''B'']) (Some [10, 11]),
      osm_element ''node'' 10 (Some (43.081, -89.441)) None None,
      osm_element ''node'' 11 (Some (43.083, -89.439)) None None]"

definition scenario_index :: "int \<rightharpoonup> element" where
  "scenario_index =
     [10 \<mapsto> osm_element ''node'' 10 (Some (43.081, -89.441)) None None,
      11 \<mapsto> osm_element ''node'' 11 (Some (43.083, -89.439)) None None]"

text \<open>The invariant of the data model: a boundary only on a record derived from a
  way.\<close>

definition geometry_ok :: "element list \<Rightarrow> DogPark \<Rightarrow> bool" where
  "geometry_ok elements p \<longleftrightarrow> area_bounds p = None \<or> derived_from_way elements p"

text \<open>A stand-in for Python's \<^verbatim>\<open>float\<close> on two numerals, for the examples.\<close>

definition toy_float :: "string \<Rightarrow> real option" where
  "toy_float s =
     (if s = ''43.5'' then Some 43.5 else if s = ''-89.5'' then Some (-89.5) else None)"

section \<open>Properties of the deduplication loops\<close>

lemma proximate_sym: "proximate p u = proximate u p"
  by (auto simp: proximate_def lat_diff_def lng_diff_def abs_minus_commute)

lemma proximate_refl: "proximate p p"
  by (simp add: proximate_def lat_diff_def lng_diff_def)

lemma merged_from_refl: "merged_from p p"
  by (simp add: merged_from_def)

lemma merged_from_merge: "merged_from (merge_information ls p u) u"
  by (simp add: merged_from_def merge_information_def Let_def)

lemma merged_from_iff:
  "merged_from a b \<longleftrightarrow>
     name a = name b \<and> lat a = lat b \<and> lng a = lng b \<and> address a = address b \<and>
     area_bounds a = area_bounds b \<and> source a = source b"
  by (cases a; cases b) (auto simp: merged_from_def)

lemma merged_from_trans: "merged_from a b \<Longrightarrow> merged_from b c \<Longrightarrow> merged_from a c"
  by (simp add: merged_from_iff)

lemma merged_from_proximate: "merged_from a b \<Longrightarrow> proximate p a = proximate p b"
  by (simp add: merged_from_iff proximate_def lat_diff_def lng_diff_def)

lemma scan_unique_Cons:
  "scan_unique ls p (u # us) =
     (if proximate p u then (True, merge_information ls p u # us)
      else (fst (scan_unique ls p us), u # snd (scan_unique ls p us)))"
  by (simp add: proximate_def split: prod.splits)

lemma scan_unique_none:
  "\<forall>u\<in>set us. \<not> proximate p u \<Longrightarrow> scan_unique ls p us = (False, us)"
  by (induction us) (simp_all add: scan_unique_Cons del: scan_unique.simps(2))

lemma scan_unique_first:
  "i < length us \<Longrightarrow> proximate p (us ! i) \<Longrightarrow> \<forall>j<i. \<not> proximate p (us ! j) \<Longrightarrow>
   scan_unique ls p us = (True, us[i := merge_information ls p (us ! i)])"
proof (induction us arbitrary: i)
  case Nil
  then show ?case by simp
next
  case (Cons u us)
  show ?case
  proof (cases i)
    case 0
    with Cons.prems show ?thesis by (simp add: scan_unique_Cons del: scan_unique.simps(2))
  next
    case (Suc k)
    with Cons.prems have nu: "\<not> proximate p u" by auto
    from Suc Cons.prems have "scan_unique ls p us = (True, us[k := merge_information ls p (us ! k)])"
      by (intro Cons.IH) auto
    with nu Suc show ?thesis by (simp add: scan_unique_Cons del: scan_unique.simps(2))
  qed
qed

lemma scan_unique_fst: "fst (scan_unique ls p us) = list_ex (proximate p) us"
  by (induction us) (simp_all add: scan_unique_Cons del: scan_unique.simps(2))

lemma scan_unique_merged: "list_all2 merged_from (snd (scan_unique ls p us)) us"
  by (induction us)
    (simp_all add: scan_unique_Cons merged_from_merge merged_from_refl list_all2_refl
       del: scan_unique.simps(2))

lemma dedup_loop_Cons:
  "dedup_loop ls (p # ps) us =
     dedup_loop ls ps
       (if list_ex (proximate p) us then snd (scan_unique ls p us)
        else snd (scan_unique ls p us) @ [p])"
  using scan_unique_fst [of ls p us] by (cases "scan_unique ls p us") auto

lemma dedup_loop_append:
  "dedup_loop ls (ps @ qs) us = dedup_loop ls qs (dedup_loop ls ps us)"
  by (induction ps arbitrary: us) (simp_all add: dedup_loop_Cons del: dedup_loop.simps(2))

lemma list_ex_merged:
  "list_all2 merged_from us' us \<Longrightarrow> list_ex (proximate p) us' = list_ex (proximate p) us"
  by (induction us' us rule: list_all2_induct) (simp_all add: merged_from_proximate)

lemma dedup_loop_first_seen:
  "list_all2 merged_from us kept \<Longrightarrow>
   list_all2 merged_from (dedup_loop ls ps us) (first_seen_loop ps kept)"
proof (induction ps arbitrary: us kept)
  case Nil
  then show ?case by simp
next
  case (Cons p ps)
  let ?s = "snd (scan_unique ls p us)"
  have m: "list_all2 merged_from ?s kept"
    using scan_unique_merged [of ls p us] Cons.prems
    by (rule list_all2_trans [rotated]) (rule merged_from_trans)
  have e: "list_ex (proximate p) us = list_ex (proximate p) kept"
    using Cons.prems by (rule list_ex_merged)
  show ?case
  proof (cases "list_ex (proximate p) kept")
    case True
    with e m Cons.IH [of ?s kept] show ?thesis
      by (simp add: dedup_loop_Cons del: dedup_loop.simps(2))
  next
    case False
    have "list_all2 merged_from (?s @ [p]) (kept @ [p])"
      using m by (simp add: list_all2_appendI merged_from_refl)
    with False e Cons.IH [of "?s @ [p]" "kept @ [p]"] show ?thesis
      by (simp add: dedup_loop_Cons del: dedup_loop.simps(2))
  qed
qed

lemma merged_apart:
  "list_all2 merged_from xs ys \<Longrightarrow> sorted_wrt apart xs = sorted_wrt apart ys"
proof -
  assume a: "list_all2 merged_from xs ys"
  then have l: "length xs = length ys" by (rule list_all2_lengthD)
  have n: "apart (xs ! i) (xs ! j) = apart (ys ! i) (ys ! j)"
    if "i < length ys" "j < length ys" for i j
  proof -
    from a l that have "merged_from (xs ! i) (ys ! i)" "merged_from (xs ! j) (ys ! j)"
      by (simp_all add: list_all2_nthD)
    then show ?thesis
      by (simp add: apart_def merged_from_iff proximate_def lat_diff_def lng_diff_def)
  qed
  show ?thesis
    unfolding sorted_wrt_iff_nth_less l using n by (metis order.strict_trans)
qed

lemma first_seen_loop_apart:
  "sorted_wrt apart kept \<Longrightarrow> sorted_wrt apart (first_seen_loop ps kept)"
proof (induction ps arbitrary: kept)
  case Nil
  then show ?case by simp
next
  case (Cons p ps)
  show ?case
  proof (cases "list_ex (proximate p) kept")
    case True
    with Cons show ?thesis by simp
  next
    case False
    then have "\<forall>u\<in>set kept. apart u p"
      by (simp add: list_ex_iff apart_def)
    with Cons.prems have "sorted_wrt apart (kept @ [p])"
      by (simp add: sorted_wrt_append)
    with False Cons.IH [of "kept @ [p]"] show ?thesis by simp
  qed
qed

lemma first_seen_loop_subseq:
  "\<exists>ys. first_seen_loop ps kept = kept @ ys \<and> subseq ys ps"
proof (induction ps arbitrary: kept)
  case Nil
  then show ?case by simp
next
  case (Cons p ps)
  show ?case
  proof (cases "list_ex (proximate p) kept")
    case True
    from Cons.IH [of kept] obtain ys where
      "first_seen_loop ps kept = kept @ ys" "subseq ys ps" by blast
    with True show ?thesis by (auto intro: subseq_Cons')
  next
    case False
    from Cons.IH [of "kept @ [p]"] obtain ys where
      "first_seen_loop ps (kept @ [p]) = (kept @ [p]) @ ys" "subseq ys ps" by blast
    with False have "first_seen_loop (p # ps) kept = kept @ (p # ys) \<and> subseq (p # ys) (p # ps)"
      by simp
    then show ?thesis by blast
  qed
qed

lemma first_seen_subseq: "subseq (first_seen ps) ps"
  using first_seen_loop_subseq [of ps "[]"] by (auto simp: first_seen_def)

lemma first_seen_loop_covers:
  "q \<in> set kept \<union> set ps \<Longrightarrow> list_ex (proximate q) (first_seen_loop ps kept)"
proof (induction ps arbitrary: kept)
  case Nil
  then show ?case using proximate_refl [of q] by (auto simp: list_ex_iff)
next
  case (Cons p ps)
  let ?k = "if list_ex (proximate p) kept then kept else kept @ [p]"
  obtain ys where ys: "first_seen_loop ps ?k = ?k @ ys"
    using first_seen_loop_subseq [of ps ?k] by blast
  show ?case
  proof (cases "q \<in> set kept \<union> set ps")
    case True
    then have "q \<in> set ?k \<union> set ps" by auto
    then show ?thesis using Cons.IH [of ?k] by simp
  next
    case False
    with Cons.prems have q: "q = p" by auto
    have "list_ex (proximate p) ?k" using proximate_refl [of p] by (auto simp: list_ex_iff)
    then have "list_ex (proximate p) (?k @ ys)" by (auto simp: list_ex_iff)
    with ys q show ?thesis by simp
  qed
qed

lemma dedup_loop_apart:
  "sorted_wrt apart (us @ ys) \<Longrightarrow> dedup_loop ls ys us = us @ ys"
proof (induction ys arbitrary: us)
  case Nil
  then show ?case by simp
next
  case (Cons p ys)
  from Cons.prems have n: "\<forall>u\<in>set us. \<not> proximate p u"
    by (auto simp: sorted_wrt_append apart_def)
  then have s: "scan_unique ls p us = (False, us)" by (rule scan_unique_none)
  from Cons.prems have "sorted_wrt apart ((us @ [p]) @ ys)" by simp
  then have "dedup_loop ls ys (us @ [p]) = (us @ [p]) @ ys" by (rule Cons.IH)
  with s show ?case by simp
qed

lemma remove_duplicates_first_seen:
  "list_all2 merged_from (remove_duplicates ls ps) (first_seen ps)"
  unfolding remove_duplicates_def first_seen_def
  by (rule dedup_loop_first_seen) simp

lemma remove_duplicates_apart: "sorted_wrt apart (remove_duplicates ls ps)"
proof -
  have "sorted_wrt apart (first_seen ps)"
    unfolding first_seen_def by (rule first_seen_loop_apart) simp
  then show ?thesis
    using merged_apart [OF remove_duplicates_first_seen [of ls ps]] by simp
qed

lemma remove_duplicates_snoc:
  "remove_duplicates ls (ps @ [p]) =
     (if list_ex (proximate p) (remove_duplicates ls ps)
      then snd (scan_unique ls p (remove_duplicates ls ps))
      else remove_duplicates ls ps @ [p])"
  by (simp add: remove_duplicates_def dedup_loop_append dedup_loop_Cons scan_unique_none
      list_ex_iff del: dedup_loop.simps(2))

lemma merged_from_maps:
  assumes "list_all2 merged_from xs ys"
  shows "map name xs = map name ys" "map address xs = map address ys"
    "map area_bounds xs = map area_bounds ys" "map source xs = map source ys"
    "map lat xs = map lat ys" "map lng xs = map lng ys"
  using assms by (induction xs ys rule: list_all2_induct) (simp_all add: merged_from_iff)

lemma merge_information_description:
  "description (merge_information ls p u) =
     (if description u = [] \<and> description p \<noteq> [] then description p else description u)"
  by (simp add: merge_information_def Let_def)

lemma merge_information_amenities_set:
  "set_enumeration ls \<Longrightarrow>
   set (amenities (merge_information ls p u)) = set (amenities u) \<union> set (amenities p)"
  by (simp add: merge_information_def Let_def set_enumeration_def)

lemma merge_information_amenities_distinct:
  "set_enumeration ls \<Longrightarrow> amenities p \<noteq> [] \<or> distinct (amenities u) \<Longrightarrow>
   distinct (amenities (merge_information ls p u))"
  by (auto simp: merge_information_def Let_def set_enumeration_def)

lemma remove_duplicates_snoc_first:
  assumes "i < length (remove_duplicates ls ps)"
    and "proximate p (remove_duplicates ls ps ! i)"
    and "\<forall>j<i. \<not> proximate p (remove_duplicates ls ps ! j)"
  shows "remove_duplicates ls (ps @ [p]) =
    (remove_duplicates ls ps)[i := merge_information ls p (remove_duplicates ls ps ! i)]"
proof -
  from assms(1,2) have "list_ex (proximate p) (remove_duplicates ls ps)"
    by (auto simp: list_ex_iff)
  with scan_unique_first [OF assms] show ?thesis
    by (simp add: remove_duplicates_snoc)
qed


lemma set_enumeration_remdups: "set_enumeration remdups"
  by (simp add: set_enumeration_def)

section \<open>Properties of the OSM processors\<close>

lemma resolve_coords_all:
  "\<forall>i\<in>set ids. \<exists>n. nodes_dict i = Some n \<and> el_lat n = Some (la i) \<and> el_lon n = Some (lo i) \<Longrightarrow>
   resolve_coords ids nodes_dict = Inr (map (\<lambda>i. [la i, lo i]) ids)"
  by (induction ids) auto

lemma resolve_coords_none:
  "\<forall>i\<in>set ids. nodes_dict i = None \<Longrightarrow> resolve_coords ids nodes_dict = Inr []"
  by (induction ids) auto

lemma process_osm_node_Inr:
  "process_osm_node e ps = Inr ps' \<Longrightarrow>
   \<exists>p. ps' = ps @ [p] \<and> area_bounds p = None \<and> el_lat e = Some (lat p) \<and>
     el_lon e = Some (lng p) \<and> amenities p = collect_amenities (get_tags e)"
  by (auto simp: process_osm_node_def Let_def split: option.splits)

lemma process_osm_way_Inr:
  "process_osm_way w nd ps = Inr ps' \<Longrightarrow>
   ps' = ps \<or>
   (\<exists>p coords. ps' = ps @ [p] \<and> resolve_coords (way_nodes w) nd = Inr coords \<and>
      ring_of p coords \<and> amenities p = collect_amenities (get_tags w))"
  by (auto simp: process_osm_way_def way_nodes_def ring_of_def Let_def
      split: option.splits sum.splits if_splits)

section \<open>Geometry of the records of a run\<close>

lemma ring_of_merged: "merged_from p q \<Longrightarrow> ring_of p coords = ring_of q coords"
  by (simp add: merged_from_iff ring_of_def)

lemma derived_from_way_merged:
  "merged_from p q \<Longrightarrow> derived_from_way elements p = derived_from_way elements q"
  by (simp add: derived_from_way_def ring_of_merged cong: sum.case_cong)

lemma derived_from_wayI:
  assumes "collect_nodes elements Map.empty = Inr nd" and "w \<in> set elements"
    and "el_type w = Some ''way''" and "resolve_coords (way_nodes w) nd = Inr coords"
    and "ring_of p coords"
  shows "derived_from_way elements p"
  using assms by (auto simp: derived_from_way_def list_ex_iff)

lemma process_elements_geometry:
  assumes nd: "collect_nodes elements Map.empty = Inr nd"
  shows "set es \<subseteq> set elements \<Longrightarrow> \<forall>p\<in>set parks. geometry_ok elements p \<Longrightarrow>
    \<forall>p\<in>set (snd (process_elements es nd parks)). geometry_ok elements p"
proof (induction es arbitrary: parks)
  case Nil
  then show ?case by simp
next
  case (Cons e es)
  from Cons.prems have e: "e \<in> set elements" and es: "set es \<subseteq> set elements" by auto
  show ?case
  proof (cases "el_type e")
    case None
    with Cons.prems show ?thesis by simp
  next
    case (Some t)
    consider (node) "t = ''node''" "el_tags e \<noteq> None"
      | (way) "\<not> (t = ''node'' \<and> el_tags e \<noteq> None)" "t = ''way''" "el_tags e \<noteq> None"
      | (other) "\<not> (t = ''node'' \<and> el_tags e \<noteq> None)" "\<not> (t = ''way'' \<and> el_tags e \<noteq> None)"
      by blast
    then show ?thesis
    proof cases
      case node
      show ?thesis
      proof (cases "process_osm_node e parks")
        case (Inl err)
        with Some node Cons.prems show ?thesis by simp
      next
        case (Inr parks')
        from process_osm_node_Inr [OF Inr] obtain p where
          "parks' = parks @ [p]" "area_bounds p = None" by blast
        with Cons.prems have "\<forall>p\<in>set parks'. geometry_ok elements p"
          by (auto simp: geometry_ok_def)
        with Some node Inr Cons.IH [OF es, of parks'] show ?thesis by simp
      qed
    next
      case way
      show ?thesis
      proof (cases "process_osm_way e nd parks")
        case (Inl err)
        with Some way Cons.prems show ?thesis by simp
      next
        case (Inr parks')
        have "\<forall>p\<in>set parks'. geometry_ok elements p"
          using process_osm_way_Inr [OF Inr] Cons.prems(2) Some way(2)
            derived_from_wayI [OF nd e]
          by (auto simp: geometry_ok_def)
        with Some way Inr Cons.IH [OF es, of parks'] show ?thesis by simp
      qed
    next
      case other
      with Some Cons.IH [OF es Cons.prems(2)] show ?thesis by auto
    qed
  qed
qed

lemma scrape_elements_geometry:
  "\<forall>p\<in>set parks. geometry_ok elements p \<Longrightarrow>
   \<forall>p\<in>set (scrape_elements elements parks). geometry_ok elements p"
  using process_elements_geometry [of elements _ elements parks]
  by (auto simp: scrape_elements_def split: sum.splits)

lemma madison_parks_no_bounds: "\<forall>p\<in>set madison_parks. area_bounds p = None"
  by (simp add: madison_parks_def madison_park_def)

lemma remove_duplicates_from_input:
  assumes "p \<in> set (remove_duplicates ls ps)"
  shows "\<exists>q\<in>set ps. merged_from p q"
proof -
  have m: "list_all2 merged_from (remove_duplicates ls ps) (first_seen ps)"
    by (rule remove_duplicates_first_seen)
  from assms obtain i where i: "i < length (remove_duplicates ls ps)"
    "remove_duplicates ls ps ! i = p" by (auto simp: in_set_conv_nth)
  with m have l: "i < length (first_seen ps)" and "merged_from p (first_seen ps ! i)"
    by (auto simp: list_all2_conv_all_nth)
  moreover have "first_seen ps ! i \<in> set ps"
  proof -
    from l have "first_seen ps ! i \<in> set (first_seen ps)" by (rule nth_mem)
    with first_seen_subseq [of ps] obtain y where "y \<in> set ps" "first_seen ps ! i = y"
      by (rule list_emb_set)
    then show ?thesis by simp
  qed
  ultimately show ?thesis by blast
qed

section \<open>Amenity lists stay free of repetitions\<close>

lemma collect_amenities_distinct: "distinct (collect_amenities tags)"
  by (simp add: collect_amenities_def)

lemma scan_unique_distinct:
  assumes "set_enumeration ls" and "\<forall>u\<in>set us. distinct (amenities u)"
  shows "\<forall>u\<in>set (snd (scan_unique ls p us)). distinct (amenities u)"
  using assms(2)
  by (induction us)
    (simp_all add: scan_unique_Cons merge_information_amenities_distinct [OF assms(1)]
      del: scan_unique.simps(2))

lemma dedup_loop_distinct:
  assumes "set_enumeration ls"
  shows "\<forall>q\<in>set ps. distinct (amenities q) \<Longrightarrow> \<forall>u\<in>set us. distinct (amenities u) \<Longrightarrow>
    \<forall>u\<in>set (dedup_loop ls ps us). distinct (amenities u)"
proof (induction ps arbitrary: us)
  case Nil
  then show ?case by simp
next
  case (Cons p ps)
  let ?s = "snd (scan_unique ls p us)"
  have s: "\<forall>u\<in>set ?s. distinct (amenities u)"
    using assms Cons.prems(2) by (rule scan_unique_distinct)
  from Cons.prems(1) have p: "distinct (amenities p)" and ps: "\<forall>q\<in>set ps. distinct (amenities q)"
    by simp_all
  from s p have sp: "\<forall>u\<in>set (?s @ [p]). distinct (amenities u)" by simp
  show ?case
    using Cons.IH [OF ps s] Cons.IH [OF ps sp]
    by (simp add: dedup_loop_Cons del: dedup_loop.simps(2))
qed

lemma remove_duplicates_distinct:
  "set_enumeration ls \<Longrightarrow> \<forall>q\<in>set ps. distinct (amenities q) \<Longrightarrow>
   \<forall>u\<in>set (remove_duplicates ls ps). distinct (amenities u)"
  unfolding remove_duplicates_def by (rule dedup_loop_distinct) simp_all

lemma process_elements_distinct:
  "\<forall>p\<in>set parks. distinct (amenities p) \<Longrightarrow>
   \<forall>p\<in>set (snd (process_elements es nd parks)). distinct (amenities p)"
proof (induction es arbitrary: parks)
  case Nil
  then show ?case by simp
next
  case (Cons e es)
  have n: "\<forall>p\<in>set parks'. distinct (amenities p)" if "process_osm_node e parks = Inr parks'" for parks'
    using process_osm_node_Inr [OF that] Cons.prems by (auto simp: collect_amenities_distinct)
  have w: "\<forall>p\<in>set parks'. distinct (amenities p)" if "process_osm_way e nd parks = Inr parks'" for parks'
    using process_osm_way_Inr [OF that] Cons.prems by (auto simp: collect_amenities_distinct)
  show ?case
    using Cons.prems Cons.IH n w
    by (auto split: option.splits sum.splits)
qed

lemma fetched_amenities_distinct:
  "\<forall>p\<in>set (scrape_madison_parks (scrape_openstreetmap response [])). distinct (amenities p)"
  using process_elements_distinct [of "[]"]
  by (auto simp: scrape_madison_parks_def scrape_openstreetmap_def scrape_elements_def
      madison_parks_def madison_park_def split: sum.splits)

section \<open>The claims\<close>



text \<open>C3: a second pass over the output of the deduplication returns that output
  unchanged.\<close>

theorem remove_duplicates_idempotent:
  "remove_duplicates ls (remove_duplicates ls ps) = remove_duplicates ls ps"
  using dedup_loop_apart [of "[]" "remove_duplicates ls ps" ls] remove_duplicates_apart [of ls ps]
  by (simp add: remove_duplicates_def)

text \<open>C2: when a record is merged into the first accumulated record within the
  threshold, that record's description becomes the duplicate's exactly when its own is
  empty and the duplicate's is not, and its amenities become the union of both amenity
  sets. \<open>list(set(...))\<close> is any enumeration of a set without repetition; the list is
  rewritten only when the duplicate has an amenity, so it is free of repetitions when it
  was rewritten or was so before. It was so before whenever the input lists are: then
  every accumulated list is free of repetitions, as are the lists the fetchers build
  (\<open>fetched_amenities_distinct\<close>).\<close>

theorem merge_description_and_amenities:
  "(i < length (remove_duplicates ls ps) \<and> proximate p (remove_duplicates ls ps ! i) \<and>
    (\<forall>j<i. \<not> proximate p (remove_duplicates ls ps ! j)) \<longrightarrow>
     description (remove_duplicates ls (ps @ [p]) ! i) =
       (if description (remove_duplicates ls ps ! i) = [] \<and> description p \<noteq> []
        then description p else description (remove_duplicates ls ps ! i)) \<and>
     (set_enumeration ls \<longrightarrow>
        set (amenities (remove_duplicates ls (ps @ [p]) ! i)) =
          set (amenities (remove_duplicates ls ps ! i)) \<union> set (amenities p)) \<and>
     (set_enumeration ls \<and>
      (amenities p \<noteq> [] \<or> distinct (amenities (remove_duplicates ls ps ! i))) \<longrightarrow>
        distinct (amenities (remove_duplicates ls (ps @ [p]) ! i)))) \<and>
   (set_enumeration ls \<and> (\<forall>q\<in>set ps. distinct (amenities q)) \<longrightarrow>
      (\<forall>u\<in>set (remove_duplicates ls ps). distinct (amenities u)))"
proof (rule conjI, intro impI)
  let ?out = "remove_duplicates ls ps"
  assume a: "i < length ?out \<and> proximate p (?out ! i) \<and> (\<forall>j<i. \<not> proximate p (?out ! j))"
  then have "remove_duplicates ls (ps @ [p]) = ?out[i := merge_information ls p (?out ! i)]"
    by (simp add: remove_duplicates_snoc_first)
  with a have e: "remove_duplicates ls (ps @ [p]) ! i = merge_information ls p (?out ! i)"
    by simp
  show "description (remove_duplicates ls (ps @ [p]) ! i) =
       (if description (?out ! i) = [] \<and> description p \<noteq> []
        then description p else description (?out ! i)) \<and>
     (set_enumeration ls \<longrightarrow>
        set (amenities (remove_duplicates ls (ps @ [p]) ! i)) =
          set (amenities (?out ! i)) \<union> set (amenities p)) \<and>
     (set_enumeration ls \<and> (amenities p \<noteq> [] \<or> distinct (amenities (?out ! i))) \<longrightarrow>
        distinct (amenities (remove_duplicates ls (ps @ [p]) ! i)))"
    unfolding e
    by (simp add: merge_information_description merge_information_amenities_set
        merge_information_amenities_distinct)
next
  show "set_enumeration ls \<and> (\<forall>q\<in>set ps. distinct (amenities q)) \<longrightarrow>
      (\<forall>u\<in>set (remove_duplicates ls ps). distinct (amenities u))"
    using remove_duplicates_distinct [of ls ps] by blast
qed

theorem merge_description_and_amenities_witness:
  "remove_duplicates remdups
     [example_park ''A'' 43 (-89) [] [''Fenced'', ''Parking''],
      example_park ''B'' 43.002 (-89) ''b'' [''Parking'']] ! 0
     = example_park ''A'' 43 (-89) [] [''Fenced'', ''Parking''] \<and>
   description (remove_duplicates remdups
     [example_park ''A'' 43 (-89) [] [''Fenced'', ''Parking''],
      example_park ''B'' 43.002 (-89) ''b'' [''Parking''],
      example_park ''C'' 43.0005 (-89.0005) ''c'' [''Parking'', ''Trails'']] ! 0) = ''c'' \<and>
   set (amenities (remove_duplicates remdups
     [example_park ''A'' 43 (-89) [] [''Fenced'', ''Parking''],
      example_park ''B'' 43.002 (-89) ''b'' [''Parking''],
      example_park ''C'' 43.0005 (-89.0005) ''c'' [''Parking'', ''Trails'']] ! 0))
     = {''Fenced'', ''Parking'', ''Trails''} \<and>
   distinct (amenities (remove_duplicates remdups
     [example_park ''A'' 43 (-89) [] [''Fenced'', ''Parking''],
      example_park ''B'' 43.002 (-89) ''b'' [''Parking''],
      example_park ''C'' 43.0005 (-89.0005) ''c'' [''Parking'', ''Trails'']] ! 0))"
  using merge_description_and_amenities [of 0 remdups
      "[example_park ''A'' 43 (-89) [] [''Fenced'', ''Parking''],
        example_park ''B'' 43.002 (-89) ''b'' [''Parking'']]"
      "example_park ''C'' 43.0005 (-89.0005) ''c'' [''Parking'', ''Trails'']"]
    set_enumeration_remdups
  by (simp add: example_park_def madison_park_def proximate_def lat_diff_def lng_diff_def
      remove_duplicates_def merge_information_def)

text \<open>C4: a merge leaves the length of the accumulated list and the name, address,
  boundary, source, latitude and longitude of every accumulated record as they were;
  each record differs from its earlier state in description and amenities at most.\<close>

theorem merge_keeps_first_seen_fields:
  "list_ex (proximate p) (remove_duplicates ls ps) \<longrightarrow>
     length (remove_duplicates ls (ps @ [p])) = length (remove_duplicates ls ps) \<and>
     map name (remove_duplicates ls (ps @ [p])) = map name (remove_duplicates ls ps) \<and>
     map address (remove_duplicates ls (ps @ [p])) = map address (remove_duplicates ls ps) \<and>
     map area_bounds (remove_duplicates ls (ps @ [p])) = map area_bounds (remove_duplicates ls ps) \<and>
     map source (remove_duplicates ls (ps @ [p])) = map source (remove_duplicates ls ps) \<and>
     map lat (remove_duplicates ls (ps @ [p])) = map lat (remove_duplicates ls ps) \<and>
     map lng (remove_duplicates ls (ps @ [p])) = map lng (remove_duplicates ls ps) \<and>
     list_all2 merged_from (remove_duplicates ls (ps @ [p])) (remove_duplicates ls ps)"
proof
  let ?out = "remove_duplicates ls ps" and ?out' = "remove_duplicates ls (ps @ [p])"
  assume "list_ex (proximate p) ?out"
  then have "?out' = snd (scan_unique ls p ?out)"
    by (simp add: remove_duplicates_snoc)
  then have m: "list_all2 merged_from ?out' ?out"
    by (simp add: scan_unique_merged)
  from m have "length ?out' = length ?out" by (rule list_all2_lengthD)
  with m merged_from_maps [OF m]
  show "length ?out' = length ?out \<and>
     map name ?out' = map name ?out \<and>
     map address ?out' = map address ?out \<and>
     map area_bounds ?out' = map area_bounds ?out \<and>
     map source ?out' = map source ?out \<and>
     map lat ?out' = map lat ?out \<and>
     map lng ?out' = map lng ?out \<and>
     list_all2 merged_from ?out' ?out"
    by simp
qed

theorem merge_keeps_first_seen_fields_witness:
  "list_ex (proximate (example_park ''C'' 43.0005 (-89.0005) ''c'' [''Parking'', ''Trails'']))
     (remove_duplicates remdups
       [example_park ''A'' 43 (-89) [] [''Fenced'', ''Parking''],
        example_park ''B'' 43.002 (-89) ''b'' [''Parking'']]) \<and>
   map name (remove_duplicates remdups
       [example_park ''A'' 43 (-89) [] [''Fenced'', ''Parking''],
        example_park ''B'' 43.002 (-89) ''b'' [''Parking''],
        example_park ''C'' 43.0005 (-89.0005) ''c'' [''Parking'', ''Trails'']]) = [''A'', ''B''] \<and>
   map lat (remove_duplicates remdups
       [example_park ''A'' 43 (-89) [] [''Fenced'', ''Parking''],
        example_park ''B'' 43.002 (-89) ''b'' [''Parking''],
        example_park ''C'' 43.0005 (-89.0005) ''c'' [''Parking'', ''Trails'']]) = [43, 43.002] \<and>
   map description (remove_duplicates remdups
       [example_park ''A'' 43 (-89) [] [''Fenced'', ''Parking''],
        example_park ''B'' 43.002 (-89) ''b'' [''Parking''],
        example_park ''C'' 43.0005 (-89.0005) ''c'' [''Parking'', ''Trails'']]) = [''c'', ''b'']"
  using merge_keeps_first_seen_fields [of
      "example_park ''C'' 43.0005 (-89.0005) ''c'' [''Parking'', ''Trails'']" remdups
      "[example_park ''A'' 43 (-89) [] [''Fenced'', ''Parking''],
        example_park ''B'' 43.002 (-89) ''b'' [''Parking'']]"]
  by (simp add: example_park_def madison_park_def proximate_def lat_diff_def lng_diff_def
      remove_duplicates_def merge_information_def)

text \<open>C5: for a way whose node list is non-empty and whose node ids are all in the
  index with their coordinates, one record is appended; its latitude and longitude are
  the sums of the nodes' latitudes and longitudes divided by the number of nodes, and
  its boundary is the list of \<open>[lat, lon]\<close> in the order of the node list.\<close>

theorem way_centroid_and_boundary:
  assumes "el_nodes way = Some ids" and "ids \<noteq> []"
    and "\<forall>i\<in>set ids. \<exists>n. nodes_dict i = Some n \<and> el_lat n = Some (la i) \<and> el_lon n = Some (lo i)"
  shows "\<exists>p. process_osm_way way nodes_dict parks = Inr (parks @ [p]) \<and>
     lat p = sum_list (map la ids) / real (length ids) \<and>
     lng p = sum_list (map lo ids) / real (length ids) \<and>
     area_bounds p = Some (map (\<lambda>i. [la i, lo i]) ids)"
proof -
  have r: "resolve_coords ids nodes_dict = Inr (map (\<lambda>i. [la i, lo i]) ids)"
    using assms(3) by (rule resolve_coords_all)
  show ?thesis
    using assms(1,2) r by (simp add: process_osm_way_def Let_def o_def)
qed

theorem way_centroid_and_boundary_witness:
  "process_osm_way (osm_element ''way'' 2 None (Some [''name'' \<mapsto> ''B'']) (Some [10, 11]))
     scenario_index []
   = Inr [\<lparr>name = ''B'', lat = 43.082, lng = -89.44, description = ''Dog park area'',
           address = '''', amenities = [],
           area_bounds = Some [[43.081, -89.441], [43.083, -89.439]],
           source = ''OpenStreetMap''\<rparr>]"
  using way_centroid_and_boundary [of
      "osm_element ''way'' 2 None (Some [''name'' \<mapsto> ''B'']) (Some [10, 11])" "[10, 11]"
      scenario_index "\<lambda>i. if i = 10 then 43.081 else 43.083"
      "\<lambda>i. if i = 10 then -89.441 else -89.439" "[]"]
  by (simp add: osm_element_def scenario_index_def process_osm_way_def get_tags_def
      get_default_def make_description_def description_parts_def collect_amenities_def)

text \<open>C6: a way without a node list, with an empty one, or none of whose node ids is
  in the index, leaves the park list as it was and raises nothing; so does every way
  whose node ids resolve to no coordinate at all.\<close>

theorem way_without_coordinates_skipped:
  "(el_nodes way = None \<or> el_nodes way = Some [] \<or>
    (\<exists>ids. el_nodes way = Some ids \<and> (\<forall>i\<in>set ids. nodes_dict i = None)) \<longrightarrow>
    process_osm_way way nodes_dict parks = Inr parks) \<and>
   (resolve_coords (way_nodes way) nodes_dict = Inr [] \<longrightarrow>
    process_osm_way way nodes_dict parks = Inr parks)"
  by (auto simp: process_osm_way_def way_nodes_def resolve_coords_none Let_def)

theorem way_without_coordinates_skipped_witness:
  "process_osm_way (osm_element ''way'' 2 None (Some [''name'' \<mapsto> ''B'']) (Some [12, 13]))
     scenario_index madison_parks = Inr madison_parks \<and>
   process_osm_way (osm_element ''way'' 2 None (Some [''name'' \<mapsto> ''B'']) (Some []))
     scenario_index madison_parks = Inr madison_parks \<and>
   process_osm_way (osm_element ''way'' 2 None (Some [''name'' \<mapsto> ''B'']) None)
     scenario_index madison_parks = Inr madison_parks"
  using
    way_without_coordinates_skipped [of
      "osm_element ''way'' 2 None (Some [''name'' \<mapsto> ''B'']) (Some [12, 13])"
      scenario_index madison_parks]
    way_without_coordinates_skipped [of
      "osm_element ''way'' 2 None (Some [''name'' \<mapsto> ''B'']) (Some [])"
      scenario_index madison_parks]
    way_without_coordinates_skipped [of
      "osm_element ''way'' 2 None (Some [''name'' \<mapsto> ''B'']) None"
      scenario_index madison_parks]
  by (simp add: osm_element_def scenario_index_def)

text \<open>C10: no two records at different positions of the output are within the
  threshold of each other in both coordinates. The output consists of the first-seen
  records of the input, in input order: those no earlier kept record is within the
  threshold of, which form a subsequence of the input, each carrying its own fields but
  for a merged description and amenities. Every input record is within the threshold of
  some output record.\<close>

theorem remove_duplicates_separated_subsequence:
  "(\<forall>i<length (remove_duplicates ls ps). \<forall>j<length (remove_duplicates ls ps).
      i \<noteq> j \<longrightarrow> \<not> proximate (remove_duplicates ls ps ! i) (remove_duplicates ls ps ! j)) \<and>
   subseq (first_seen ps) ps \<and>
   list_all2 merged_from (remove_duplicates ls ps) (first_seen ps) \<and>
   (\<forall>p\<in>set ps. list_ex (proximate p) (remove_duplicates ls ps))"
proof (intro conjI allI impI ballI)
  let ?out = "remove_duplicates ls ps"
  fix i j assume ij: "i < length ?out" "j < length ?out" "i \<noteq> j"
  have s: "sorted_wrt apart ?out" by (rule remove_duplicates_apart)
  show "\<not> proximate (?out ! i) (?out ! j)"
  proof (cases "i < j")
    case True
    with s ij have "apart (?out ! i) (?out ! j)" by (simp add: sorted_wrt_iff_nth_less)
    then show ?thesis by (simp add: apart_def proximate_sym [of "?out ! i"])
  next
    case False
    with ij have "j < i" by simp
    with s ij have "apart (?out ! j) (?out ! i)" by (simp add: sorted_wrt_iff_nth_less)
    then show ?thesis by (simp add: apart_def)
  qed
next
  show "subseq (first_seen ps) ps" by (rule first_seen_subseq)
next
  show "list_all2 merged_from (remove_duplicates ls ps) (first_seen ps)"
    by (rule remove_duplicates_first_seen)
next
  fix p assume "p \<in> set ps"
  then have "list_ex (proximate p) (first_seen ps)"
    unfolding first_seen_def using first_seen_loop_covers [of p "[]" ps] by simp
  then show "list_ex (proximate p) (remove_duplicates ls ps)"
    using list_ex_merged [OF remove_duplicates_first_seen [of ls ps]] by simp
qed

theorem remove_duplicates_separated_subsequence_witness:
  "remove_duplicates remdups
       [example_park ''A'' 43 (-89) [] [''Fenced''],
        example_park ''C'' 43.0005 (-89.0005) ''c'' [''Trails''],
        example_park ''B'' 43.002 (-89) ''b'' [''Parking'']]
     = [example_park ''A'' 43 (-89) ''c'' [''Fenced'', ''Trails''],
        example_park ''B'' 43.002 (-89) ''b'' [''Parking'']] \<and>
   first_seen
       [example_park ''A'' 43 (-89) [] [''Fenced''],
        example_park ''C'' 43.0005 (-89.0005) ''c'' [''Trails''],
        example_park ''B'' 43.002 (-89) ''b'' [''Parking'']]
     = [example_park ''A'' 43 (-89) [] [''Fenced''],
        example_park ''B'' 43.002 (-89) ''b'' [''Parking'']] \<and>
   \<not> proximate (example_park ''A'' 43 (-89) ''c'' [''Fenced'', ''Trails''])
       (example_park ''B'' 43.002 (-89) ''b'' [''Parking''])"
  using remove_duplicates_separated_subsequence [of remdups
       "[example_park ''A'' 43 (-89) [] [''Fenced''],
        example_park ''C'' 43.0005 (-89.0005) ''c'' [''Trails''],
        example_park ''B'' 43.002 (-89) ''b'' [''Parking'']]"]
  by (simp add: example_park_def madison_park_def proximate_def lat_diff_def lng_diff_def
      remove_duplicates_def merge_information_def first_seen_def)

text \<open>C7 as stated fails: a tag that is present does not give its label unless its
  value is \<open>yes\<close>. A node tagged \<open>lit=no\<close> has the key and gets no amenity.\<close>

theorem amenities_presence_counterexample:
  "(Map.empty(''lit'' \<mapsto> ''no'')) ''lit'' \<noteq> None \<and>
   ''Lighting'' \<notin> set (collect_amenities (Map.empty(''lit'' \<mapsto> ''no''))) \<and>
   process_osm_node
     (osm_element ''node'' 1 (Some (43.08, -89.44)) (Some (Map.empty(''lit'' \<mapsto> ''no''))) None) []
   = Inr [\<lparr>name = ''Unnamed Dog Park'', lat = 43.08, lng = -89.44, description = ''Dog park'',
           address = '''', amenities = [], area_bounds = None, source = ''OpenStreetMap''\<rparr>]"
  by (simp add: collect_amenities_def process_osm_node_def osm_element_def get_tags_def
      get_default_def make_description_def description_parts_def)

text \<open>C7, amended: each of the four labels is included exactly when its tag
  (\<open>drinking_water\<close>, \<open>lit\<close>, \<open>fence\<close>, \<open>toilets\<close>) is present with the value
  \<open>yes\<close>; nothing but these four labels is ever produced, no other tag key has any
  influence, and both processors give their record exactly these amenities.\<close>

theorem amenities_yes_valued_tags:
  "(''Water fountain'' \<in> set (collect_amenities tags) \<longleftrightarrow> tags ''drinking_water'' = Some ''yes'') \<and>
   (''Lighting'' \<in> set (collect_amenities tags) \<longleftrightarrow> tags ''lit'' = Some ''yes'') \<and>
   (''Fenced'' \<in> set (collect_amenities tags) \<longleftrightarrow> tags ''fence'' = Some ''yes'') \<and>
   (''Restrooms'' \<in> set (collect_amenities tags) \<longleftrightarrow> tags ''toilets'' = Some ''yes'') \<and>
   set (collect_amenities tags) \<subseteq> {''Water fountain'', ''Lighting'', ''Fenced'', ''Restrooms''} \<and>
   collect_amenities (tags |` {''drinking_water'', ''lit'', ''fence'', ''toilets''}) =
     collect_amenities tags \<and>
   (process_osm_node e ps = Inr ps' \<longrightarrow> amenities (last ps') = collect_amenities (get_tags e)) \<and>
   (process_osm_way w nd ps = Inr qs \<and> qs \<noteq> ps \<longrightarrow>
      amenities (last qs) = collect_amenities (get_tags w))"
proof (intro conjI impI)
  assume "process_osm_node e ps = Inr ps'"
  then show "amenities (last ps') = collect_amenities (get_tags e)"
    by (auto dest: process_osm_node_Inr)
next
  assume "process_osm_way w nd ps = Inr qs \<and> qs \<noteq> ps"
  then show "amenities (last qs) = collect_amenities (get_tags w)"
    by (auto dest: process_osm_way_Inr)
qed (auto simp: collect_amenities_def)

theorem amenities_yes_valued_tags_witness:
  "collect_amenities [''fence'' \<mapsto> ''yes'', ''lit'' \<mapsto> ''no'', ''name'' \<mapsto> ''A'', ''toilets'' \<mapsto> ''yes'']
     = [''Fenced'', ''Restrooms''] \<and>
   process_osm_node
     (osm_element ''node'' 1 (Some (43.08, -89.44))
        (Some [''name'' \<mapsto> ''A'', ''fence'' \<mapsto> ''yes'']) None) []
   = Inr [\<lparr>name = ''A'', lat = 43.08, lng = -89.44, description = ''Dog park'',
           address = '''', amenities = [''Fenced''], area_bounds = None,
           source = ''OpenStreetMap''\<rparr>] \<and>
   process_osm_way
     (osm_element ''way'' 2 None (Some [''name'' \<mapsto> ''B'', ''drinking_water'' \<mapsto> ''yes''])
        (Some [10, 11]))
     scenario_index []
   = Inr [\<lparr>name = ''B'', lat = 43.082, lng = -89.44, description = ''Dog park area'',
           address = [], amenities = [''Water fountain''],
           area_bounds = Some [[43.081, -89.441], [43.083, -89.439]],
           source = ''OpenStreetMap''\<rparr>]"
  using amenities_yes_valued_tags [of
      "[''fence'' \<mapsto> ''yes'', ''lit'' \<mapsto> ''no'', ''name'' \<mapsto> ''A'', ''toilets'' \<mapsto> ''yes'']"
      "osm_element ''node'' 1 (Some (43.08, -89.44))
        (Some [''name'' \<mapsto> ''A'', ''fence'' \<mapsto> ''yes'']) None" "[]"
      "[\<lparr>name = ''A'', lat = 43.08, lng = -89.44, description = ''Dog park'',
           address = '''', amenities = [''Fenced''], area_bounds = None,
           source = ''OpenStreetMap''\<rparr>]"
      "osm_element ''way'' 2 None (Some [''name'' \<mapsto> ''B'', ''drinking_water'' \<mapsto> ''yes''])
        (Some [10, 11])"
      scenario_index
      "[\<lparr>name = ''B'', lat = 43.082, lng = -89.44, description = ''Dog park area'',
           address = [], amenities = [''Water fountain''],
           area_bounds = Some [[43.081, -89.441], [43.083, -89.439]],
           source = ''OpenStreetMap''\<rparr>]"]
  by (simp add: collect_amenities_def process_osm_node_def process_osm_way_def osm_element_def
      get_tags_def get_default_def make_description_def description_parts_def
      scenario_index_def)

text \<open>C8: the geocoder returns the default pair (43.0731, -89.4012) when the request
  or the decoding raised, when the result list is empty, and when the first match lacks
  a coordinate or its text is not a number; otherwise it returns the parsed latitude and
  longitude of the first match. Every exception of the body ends in the default: the
  function returns a pair on every input.\<close>

theorem geocode_location_default_on_failure:
  "geocode_location to_float (Inl err) = default_coordinates \<and>
   geocode_location to_float (Inr []) = default_coordinates \<and>
   (geocode_try to_float response = Inl err \<longrightarrow>
      geocode_location to_float response = default_coordinates) \<and>
   (m_lat m = None \<or> m_lon m = None \<or> (\<exists>s. m_lat m = Some s \<and> to_float s = None) \<or>
    (\<exists>t. m_lon m = Some t \<and> to_float t = None) \<longrightarrow>
      geocode_location to_float (Inr (m # ms)) = default_coordinates) \<and>
   (m_lat m = Some s \<and> to_float s = Some la \<and> m_lon m = Some t \<and> to_float t = Some lo \<longrightarrow>
      geocode_location to_float (Inr (m # ms)) = (la, lo)) \<and>
   default_coordinates = (43.0731, -89.4012)"
  by (auto simp: geocode_location_def geocode_try_def default_coordinates_def
      split: option.splits)

theorem geocode_location_default_on_failure_witness:
  "geocode_location toy_float (Inr [\<lparr>m_lat = Some ''43.5'', m_lon = Some ''-89.5''\<rparr>,
       \<lparr>m_lat = Some ''1'', m_lon = None\<rparr>]) = (43.5, -89.5) \<and>
   geocode_location toy_float (Inr [\<lparr>m_lat = Some ''43.5'', m_lon = Some ''west''\<rparr>])
     = (43.0731, -89.4012) \<and>
   geocode_location toy_float (Inr [\<lparr>m_lat = None, m_lon = Some ''-89.5''\<rparr>])
     = (43.0731, -89.4012) \<and>
   geocode_location toy_float (Inl RequestException) = (43.0731, -89.4012)"
  using
    geocode_location_default_on_failure [of toy_float RequestException "Inl RequestException"
      "\<lparr>m_lat = Some ''43.5'', m_lon = Some ''-89.5''\<rparr>"
      "[\<lparr>m_lat = Some ''1'', m_lon = None\<rparr>]" "''43.5''" "43.5" "''-89.5''" "-89.5"]
    geocode_location_default_on_failure [of toy_float RequestException "Inl RequestException"
      "\<lparr>m_lat = Some ''43.5'', m_lon = Some ''west''\<rparr>" "[]"]
    geocode_location_default_on_failure [of toy_float RequestException "Inl RequestException"
      "\<lparr>m_lat = None, m_lon = Some ''-89.5''\<rparr>" "[]"]
  by (simp add: toy_float_def geocode_try_def)

text \<open>C9: every record of a run's output has no boundary, or it is derived from a way
  element of the response: its boundary is the non-empty ring resolved for that way and
  its coordinates are the ring's means. A node record takes the node's own
  \<open>lat\<close>/\<open>lon\<close> and has no boundary, a way record has the resolved ring, the Madison
  records have no boundary, and deduplication returns records that carry the
  coordinates and boundary of input records.\<close>

theorem exported_records_geometry:
  "(\<forall>p\<in>set (run_parks ls (Inr elements) madison).
      area_bounds p = None \<or> derived_from_way elements p) \<and>
   (\<forall>p\<in>set (run_parks ls (Inl err) madison). area_bounds p = None) \<and>
   (process_osm_node e ps = Inr ps' \<longrightarrow>
      (\<exists>p. ps' = ps @ [p] \<and> el_lat e = Some (lat p) \<and> el_lon e = Some (lng p) \<and>
         area_bounds p = None)) \<and>
   (process_osm_way w nd ps = Inr qs \<longrightarrow>
      qs = ps \<or> (\<exists>p coords. qs = ps @ [p] \<and> resolve_coords (way_nodes w) nd = Inr coords \<and>
         ring_of p coords)) \<and>
   (\<forall>p\<in>set madison_parks. area_bounds p = None) \<and>
   (\<forall>p\<in>set (remove_duplicates ls rs). \<exists>q\<in>set rs.
      lat p = lat q \<and> lng p = lng q \<and> area_bounds p = area_bounds q)"
proof (intro conjI ballI impI)
  fix p assume p: "p \<in> set (run_parks ls (Inr elements) madison)"
  let ?parks = "if madison then scrape_madison_parks (scrape_elements elements [])
    else scrape_elements elements []"
  from p have "p \<in> set (remove_duplicates ls ?parks)"
    by (simp add: run_parks_def scrape_openstreetmap_def Let_def)
  then obtain q where q: "q \<in> set ?parks" "merged_from p q"
    using remove_duplicates_from_input by blast
  have "\<forall>p\<in>set (scrape_elements elements []). geometry_ok elements p"
    by (rule scrape_elements_geometry) simp
  with madison_parks_no_bounds have "\<forall>p\<in>set ?parks. geometry_ok elements p"
    by (auto simp: scrape_madison_parks_def geometry_ok_def)
  with q have "geometry_ok elements q" by blast
  with q(2) show "area_bounds p = None \<or> derived_from_way elements p"
    using derived_from_way_merged [OF q(2), of elements]
    by (simp add: geometry_ok_def merged_from_iff)
next
  fix p assume p: "p \<in> set (run_parks ls (Inl err) madison)"
  let ?parks = "if madison then scrape_madison_parks [] else []"
  from p have "p \<in> set (remove_duplicates ls ?parks)"
    by (simp add: run_parks_def scrape_openstreetmap_def Let_def)
  then obtain q where q: "q \<in> set ?parks" "merged_from p q"
    using remove_duplicates_from_input by blast
  with madison_parks_no_bounds show "area_bounds p = None"
    by (auto simp: scrape_madison_parks_def merged_from_iff split: if_splits)
next
  assume "process_osm_node e ps = Inr ps'"
  then show "\<exists>p. ps' = ps @ [p] \<and> el_lat e = Some (lat p) \<and> el_lon e = Some (lng p) \<and>
         area_bounds p = None"
    using process_osm_node_Inr by blast
next
  assume "process_osm_way w nd ps = Inr qs"
  then show "qs = ps \<or> (\<exists>p coords. qs = ps @ [p] \<and>
      resolve_coords (way_nodes w) nd = Inr coords \<and> ring_of p coords)"
    using process_osm_way_Inr by blast
next
  fix p assume "p \<in> set madison_parks"
  then show "area_bounds p = None" using madison_parks_no_bounds by blast
next
  fix p assume "p \<in> set (remove_duplicates ls rs)"
  then show "\<exists>q\<in>set rs. lat p = lat q \<and> lng p = lng q \<and> area_bounds p = area_bounds q"
    using remove_duplicates_from_input [of p ls rs] by (auto simp: merged_from_iff)
qed

theorem exported_records_geometry_witness:
  "run_parks remdups (Inr scenario_elements) False
   = [\<lparr>name = ''A'', lat = 43.08, lng = -89.44, description = ''Dog park'',
        address = [], amenities = [''Fenced''], area_bounds = None,
        source = ''OpenStreetMap''\<rparr>,
      \<lparr>name = ''B'', lat = 43.082, lng = -89.44, description = ''Dog park area'',
        address = [], amenities = [],
        area_bounds = Some [[43.081, -89.441], [43.083, -89.439]],
        source = ''OpenStreetMap''\<rparr>] \<and>
   derived_from_way scenario_elements
     \<lparr>name = ''B'', lat = 43.082, lng = -89.44, description = ''Dog park area'',
        address = [], amenities = [],
        area_bounds = Some [[43.081, -89.441], [43.083, -89.439]],
        source = ''OpenStreetMap''\<rparr> \<and>
   map area_bounds (run_parks remdups (Inl RequestException) True) = [None, None, None, None, None]"
  using exported_records_geometry [where ls = remdups and elements = scenario_elements
      and madison = False and err = RequestException
      and e = "osm_element ''node'' 1 (Some (43.08, -89.44))
        (Some [''name'' \<mapsto> ''A'', ''fence'' \<mapsto> ''yes'']) None"
      and ps = "[]"
      and ps' = "[\<lparr>name = ''A'', lat = 43.08, lng = -89.44, description = ''Dog park'',
        address = [], amenities = [''Fenced''], area_bounds = None,
        source = ''OpenStreetMap''\<rparr>]"
      and w = "osm_element ''way'' 2 None (Some [''name'' \<mapsto> ''B'']) (Some [10, 11])"
      and nd = scenario_index
      and qs = "[\<lparr>name = ''B'', lat = 43.082, lng = -89.44, description = ''Dog park area'',
        address = [], amenities = [],
        area_bounds = Some [[43.081, -89.441], [43.083, -89.439]],
        source = ''OpenStreetMap''\<rparr>]"
      and rs = madison_parks]
  by (simp add: run_parks_def scrape_openstreetmap_def scrape_elements_def scenario_elements_def
      scenario_index_def osm_element_def process_osm_node_def process_osm_way_def
      get_tags_def get_default_def make_description_def description_parts_def
      collect_amenities_def remove_duplicates_def lat_diff_def lng_diff_def
      derived_from_way_def way_nodes_def ring_of_def scrape_madison_parks_def
      madison_parks_def madison_park_def)

end
